theory Spec2Isabelle
  imports Main "HOL-Library.Sublist"
begin

section \<open>Typed events: the data model of \<open>src/typed_event.ts\<close>\<close>

text \<open>
  The source has one class, the anonymous implementation of \<open>TypedEventController<T>\<close>
  returned by \<open>makeTypedEventController\<close>. Its only field is the array
  \<open>_listeners\<close> of listener functions. Channel objects live on the JavaScript heap and
  are shared by reference, so the model has an explicit store: a channel is an address
  (\<open>chan\<close>), and the heap maps every address to the \<open>_listeners\<close> array of the
  object at that address.

  A listener is a function value \<open>(_: T) => void\<close>. Two kinds occur in the source:
  a function that client code hands to \<open>addListener\<close>, and the bound method
  \<open>controller.fire.bind(controller)\<close> that \<open>addPassthroughListener\<close> builds.
  The first kind is opaque to the channel; it is a reference \<open>Closure k\<close>, and what the
  body of closure \<open>k\<close> does is given by an environment (\<open>code\<close> below). The second
  kind is \<open>BoundFire t\<close>, the \<open>fire\<close> method of channel \<open>t\<close> with \<open>this\<close> bound
  to \<open>t\<close>.
\<close>

type_synonym chan = nat

datatype lref = Closure nat | BoundFire chan

text \<open>
  The heap: the \<open>_listeners\<close> array of every channel object, the number of channel
  objects allocated so far (the address the next \<open>new\<close> returns), and the rest of the
  program's state, which listeners may read and write (\<open>user\<close>).
\<close>

record 'u heap =
  listeners :: "chan \<Rightarrow> lref list"
  allocated :: nat
  user :: 'u

text \<open>
  A call either returns or throws. JavaScript keeps the effects made before a
  \<open>throw\<close>, so an abrupt completion carries the heap as well as the thrown value.
\<close>

datatype ('e, 's) completion = Normal 's | Abrupt 'e 's

fun heap_of :: "('e, 's) completion \<Rightarrow> 's" where
  "heap_of (Normal s) = s"
| "heap_of (Abrupt e s) = s"

text \<open>
  The body of every client function: given the payload and the heap it either returns,
  throws, or does not terminate (\<open>None\<close>). A body may read and write the whole
  heap, the listener sequences included (what \<open>addListener\<close> does to a heap is such a
  write). The one thing a body does not do here is run \<open>fire\<close>: a listener that
  fires a channel \<open>t\<close> is the bound \<open>fire\<close> of \<open>t\<close>, which is what
  \<open>t.fire.bind(t)\<close> and \<open>d => t.fire(d)\<close> both are.
\<close>

type_synonym ('d, 'e, 'u) code = "nat \<Rightarrow> 'd \<Rightarrow> 'u heap \<Rightarrow> ('e, 'u heap) completion option"

text \<open>
  What a firing did is observed as the tree of the calls \<open>listener(data)\<close> it made
  (line 97 of the source): \<open>Call c l d tr\<close> says that \<open>fire\<close> of channel \<open>c\<close> called
  listener \<open>l\<close> with payload \<open>d\<close>, and that \<open>tr\<close> are the calls made inside that call
  (not empty only for a bound \<open>fire\<close>).
\<close>

datatype 'd call =
  Call (call_chan: chan) (call_listener: lref) (call_payload: 'd) (call_nested: "'d call list")

section \<open>The operations\<close>

text \<open>
  \<open>makeTypedEventController\<close> (lines 74 to 101): \<open>new\<close> allocates an object whose
  field initialiser sets \<open>_listeners = []\<close>; the reference to it is returned.
\<close>

definition makeTypedEventController :: "'u heap \<Rightarrow> chan \<times> 'u heap" where
  "makeTypedEventController h =
     (allocated h,
      h\<lparr>listeners := (listeners h)(allocated h := []), allocated := Suc (allocated h)\<rparr>)"

text \<open>\<open>addListener\<close> (lines 81 to 84): \<open>this._listeners.push(listener)\<close>.\<close>

definition addListener :: "chan \<Rightarrow> lref \<Rightarrow> 'u heap \<Rightarrow> 'u heap" where
  "addListener c listener h = h\<lparr>listeners := (listeners h)(c := listeners h c @ [listener])\<rparr>"

text \<open>
  \<open>addPassthroughListener\<close> (lines 87 to 90):
  \<open>this.addListener(controller.fire.bind(controller))\<close>.
\<close>

definition addPassthroughListener :: "chan \<Rightarrow> chan \<Rightarrow> 'u heap \<Rightarrow> 'u heap" where
  "addPassthroughListener c controller h = addListener c (BoundFire controller) h"

text \<open>
  \<open>fire\<close> (lines 93 to 99): \<open>for (let listener of this._listeners) listener(data)\<close>.
  The \<open>for ... of\<close> loop runs the array iterator: it keeps an index, and before every
  step compares it with the current length of the array, so the loop reads the live
  array, not a copy. \<open>fire_from code c d i h\<close> is the loop of channel \<open>c\<close> standing at
  index \<open>i\<close> in heap \<open>h\<close>. Calling a closure runs its body; calling a bound \<open>fire\<close>
  runs \<open>fire\<close> of the target channel from index 0. There is no \<open>try\<close> in the source:
  a throw ends the loop and leaves \<open>fire\<close> with the same thrown value. The loop need
  not end (a listener may not return, a channel may pass through to itself, a listener
  may register a listener at every call), so the result is an option and \<open>None\<close>
  stands for a firing that never returns. Arrays and the call stack have no bound here:
  where an engine stops a run with a \<open>RangeError\<close> for the length of an array or the
  depth of the stack, the firing of the model does not return.
\<close>

partial_function (option) fire_from ::
  "('d, 'e, 'u) code \<Rightarrow> chan \<Rightarrow> 'd \<Rightarrow> nat \<Rightarrow> 'u heap
     \<Rightarrow> (('e, 'u heap) completion \<times> 'd call list) option"
where
  "fire_from code c d i h =
    (if i < length (listeners h c) then
       (let listener = listeners h c ! i in
        Option.bind
          (case listener of
             Closure k \<Rightarrow> map_option (\<lambda>r. (r, [])) (code k d h)
           | BoundFire t \<Rightarrow> fire_from code t d 0 h)
          (\<lambda>(r, tr).
             case r of
               Abrupt e h' \<Rightarrow> Some (Abrupt e h', [Call c listener d tr])
             | Normal h' \<Rightarrow>
                 Option.bind (fire_from code c d (Suc i) h')
                   (\<lambda>(r', rest). Some (r', Call c listener d tr # rest))))
     else Some (Normal h, []))"

definition fire ::
  "('d, 'e, 'u) code \<Rightarrow> chan \<Rightarrow> 'd \<Rightarrow> 'u heap \<Rightarrow> (('e, 'u heap) completion \<times> 'd call list) option"
where
  "fire code c d h = fire_from code c d 0 h"

text \<open>The call \<open>listener(data)\<close> on its own: what calling a listener value does.\<close>

definition invoke ::
  "('d, 'e, 'u) code \<Rightarrow> lref \<Rightarrow> 'd \<Rightarrow> 'u heap \<Rightarrow> (('e, 'u heap) completion \<times> 'd call list) option"
where
  "invoke code listener d h =
     (case listener of
        Closure k \<Rightarrow> map_option (\<lambda>r. (r, [])) (code k d h)
      | BoundFire t \<Rightarrow> fire code t d h)"

subsection \<open>The two interfaces\<close>

text \<open>
  \<open>interface TypedEvent<T>\<close> (lines 33 to 54) declares two methods;
  \<open>interface TypedEventController<T> extends TypedEvent<T>\<close> (lines 59 to 67) adds
  \<open>fire\<close>. An interface is modelled by the datatype of the method calls it admits, and
  a call through a \<open>TypedEvent\<close> reference is the same call on the object behind it.
\<close>

datatype TypedEvent_call = AddListener lref | AddPassthroughListener chan

datatype 'd TypedEventController_call = Inherited TypedEvent_call | Fire 'd

fun call_TypedEventController ::
  "('d, 'e, 'u) code \<Rightarrow> chan \<Rightarrow> 'd TypedEventController_call \<Rightarrow> 'u heap
     \<Rightarrow> (('e, 'u heap) completion \<times> 'd call list) option"
where
  "call_TypedEventController code c (Inherited (AddListener l)) h =
     Some (Normal (addListener c l h), [])"
| "call_TypedEventController code c (Inherited (AddPassthroughListener t)) h =
     Some (Normal (addPassthroughListener c t h), [])"
| "call_TypedEventController code c (Fire d) h = fire code c d h"

definition call_TypedEvent ::
  "('d, 'e, 'u) code \<Rightarrow> chan \<Rightarrow> TypedEvent_call \<Rightarrow> 'u heap
     \<Rightarrow> (('e, 'u heap) completion \<times> 'd call list) option"
where
  "call_TypedEvent code c m h = call_TypedEventController code c (Inherited m) h"

section \<open>Observations\<close>

text \<open>The calls a firing made itself, in the order it made them.\<close>

definition top_calls :: "'d call list \<Rightarrow> (lref \<times> 'd) list" where
  "top_calls T = map (\<lambda>x. (call_listener x, call_payload x)) T"

text \<open>Every call of a tree, nested ones included, in the order they began.\<close>

fun all_calls :: "'d call \<Rightarrow> (chan \<times> lref \<times> 'd) list" where
  "all_calls (Call c l d tr) = (c, l, d) # concat (map all_calls tr)"

definition calls_made :: "'d call list \<Rightarrow> (chan \<times> lref \<times> 'd) list" where
  "calls_made T = concat (map all_calls T)"

text \<open>The client functions called in a tree of calls.\<close>

definition closures_called :: "'d call list \<Rightarrow> nat set" where
  "closures_called T =
     set (concat (map (\<lambda>(c, l, d). case l of Closure k \<Rightarrow> [k] | BoundFire t \<Rightarrow> [])
                      (calls_made T)))"

text \<open>Registering a sequence of listeners, one \<open>addListener\<close> call after the other.\<close>

definition register_all :: "chan \<Rightarrow> lref list \<Rightarrow> 'u heap \<Rightarrow> 'u heap" where
  "register_all c ls h = foldl (\<lambda>h' l. addListener c l h') h ls"

subsection \<open>What is assumed of the listeners\<close>

text \<open>
  What a listener does depends on the heap it is called in, so an assumption on a
  listener is made relative to a set \<open>P\<close> of heaps (a predicate): the heaps the firing
  under study may pass through. With \<open>P\<close> true everywhere the assumption is about
  every heap.

  \<open>steps_to P Q code d l\<close>: called with \<open>d\<close> in a heap of \<open>P\<close>, listener \<open>l\<close> returns
  normally, in a heap of \<open>Q\<close>. \<open>returns_normally\<close> is the case \<open>Q = P\<close>, and
  \<open>raises P code d l e\<close> says that the call throws \<open>e\<close> instead.
\<close>

definition steps_to ::
  "('u heap \<Rightarrow> bool) \<Rightarrow> ('u heap \<Rightarrow> bool) \<Rightarrow> ('d, 'e, 'u) code \<Rightarrow> 'd \<Rightarrow> lref \<Rightarrow> bool"
where
  "steps_to P Q code d l \<longleftrightarrow>
     (\<forall>h. P h \<longrightarrow> (\<exists>h' tr. invoke code l d h = Some (Normal h', tr) \<and> Q h'))"



text \<open>
  In every heap of \<open>P\<close> the listener sequence of channel \<open>c\<close> is \<open>ls\<close> (so a listener
  that stays in \<open>P\<close> registers nothing on \<open>c\<close>); and the weaker: in every heap of
  \<open>P\<close> the sequence of \<open>c\<close> begins with \<open>ls\<close>.
\<close>

definition sequence_is :: "('u heap \<Rightarrow> bool) \<Rightarrow> chan \<Rightarrow> lref list \<Rightarrow> bool" where
  "sequence_is P c ls \<longleftrightarrow> (\<forall>h. P h \<longrightarrow> listeners h c = ls)"

definition sequence_begins :: "('u heap \<Rightarrow> bool) \<Rightarrow> chan \<Rightarrow> lref list \<Rightarrow> bool" where
  "sequence_begins P c ls \<longleftrightarrow> (\<forall>h. P h \<longrightarrow> prefix ls (listeners h c))"

text \<open>
  A firing calls the listeners one after the other, and what a listener does may depend
  on what the listeners before it did. So what is assumed of the listeners of one firing
  is assumed along the firing: \<open>P i\<close> is a set of heaps that contains the heap in
  which the loop stands at index \<open>i\<close>, and \<open>P 0\<close> the heap in which \<open>fire\<close> is
  called. The sets may be as narrow as the heaps the firing passes through.

  \<open>calls_return P code d ls\<close>: the listeners of \<open>ls\<close>, called one after the other
  with \<open>d\<close>, return normally: \<open>ls ! i\<close>, called in a heap of \<open>P i\<close>, returns in a
  heap of \<open>P (i + 1)\<close>.
\<close>

definition calls_return ::
  "(nat \<Rightarrow> 'u heap \<Rightarrow> bool) \<Rightarrow> ('d, 'e, 'u) code \<Rightarrow> 'd \<Rightarrow> lref list \<Rightarrow> bool"
where
  "calls_return P code d ls \<longleftrightarrow>
     (\<forall>i<length ls. steps_to (P i) (P (Suc i)) code d (ls ! i))"

text \<open>
  In the heaps of \<open>P 0\<close> to \<open>P n\<close> the listener sequence of channel \<open>c\<close> is \<open>ls\<close>
  (nothing is registered on \<open>c\<close> on the way); and the weaker: it begins with \<open>ls\<close>
  (the entries of \<open>ls\<close> stay in place).
\<close>

definition sequence_stays ::
  "(nat \<Rightarrow> 'u heap \<Rightarrow> bool) \<Rightarrow> nat \<Rightarrow> chan \<Rightarrow> lref list \<Rightarrow> bool"
where
  "sequence_stays P n c ls \<longleftrightarrow> (\<forall>i<Suc n. sequence_is (P i) c ls)"

definition sequence_kept ::
  "(nat \<Rightarrow> 'u heap \<Rightarrow> bool) \<Rightarrow> nat \<Rightarrow> chan \<Rightarrow> lref list \<Rightarrow> bool"
where
  "sequence_kept P n c ls \<longleftrightarrow> (\<forall>i<Suc n. sequence_begins (P i) c ls)"




definition closure_appends ::
  "('u heap \<Rightarrow> bool) \<Rightarrow> ('d, 'e, 'u) code \<Rightarrow> 'd \<Rightarrow> nat \<Rightarrow> bool"
where
  "closure_appends P code d k \<longleftrightarrow>
     (\<forall>h r. P h \<longrightarrow> code k d h = Some r \<longrightarrow>
        P (heap_of r) \<and> (\<forall>c. prefix (listeners h c) (listeners (heap_of r) c)))"

subsection \<open>Example programs\<close>

text \<open>
  The listeners of the examples: the program state is a log of names. Closure 0 appends
  \<open>''a''\<close> to the log, closure 1 throws \<open>''boom''\<close>, closure 2 appends \<open>''c''\<close>,
  closure 3 calls \<open>addListener\<close> on channel 0 with closure 2. What closures 4 and
  5 do depends on what ran before them: closure 4 throws \<open>''early''\<close> when the log is
  empty and appends \<open>''d''\<close> to it otherwise, closure 5 returns when the log is empty
  and throws \<open>''late''\<close> otherwise. Every other closure returns at once.
\<close>

definition say :: "string \<Rightarrow> string list heap \<Rightarrow> string list heap" where
  "say name h = h\<lparr>user := user h @ [name]\<rparr>"

fun example_code :: "(int, string, string list) code" where
  "example_code k d h =
     (if k = 0 then Some (Normal (say ''a'' h))
      else if k = 1 then Some (Abrupt ''boom'' h)
      else if k = 2 then Some (Normal (say ''c'' h))
      else if k = 3 then Some (Normal (addListener 0 (Closure 2) h))
      else if k = 4 then
        (if user h = [] then Some (Abrupt ''early'' h) else Some (Normal (say ''d'' h)))
      else if k = 5 then
        (if user h = [] then Some (Normal h) else Some (Abrupt ''late'' h))
      else Some (Normal h))"

definition empty_heap :: "string list heap" where
  "empty_heap = \<lparr>listeners = (\<lambda>c. []), allocated = 0, user = []\<rparr>"

text \<open>A fresh channel (it is channel 0) with the given listeners registered in order.\<close>

definition channel_with :: "lref list \<Rightarrow> string list heap" where
  "channel_with ls = register_all 0 ls (snd (makeTypedEventController empty_heap))"

text \<open>
  Two fresh channels, 0 and 1, with the given listeners registered on each.
\<close>

definition two_channels :: "lref list \<Rightarrow> lref list \<Rightarrow> string list heap" where
  "two_channels ls0 ls1 =
     register_all 1 ls1
       (register_all 0 ls0
          (snd (makeTypedEventController (snd (makeTypedEventController empty_heap)))))"

section \<open>The loop, one step at a time\<close>

lemma fire_from_unfold:
  "fire_from code c d i h =
     (if i < length (listeners h c) then
        (case invoke code (listeners h c ! i) d h of
           None \<Rightarrow> None
         | Some (Abrupt e h', tr) \<Rightarrow> Some (Abrupt e h', [Call c (listeners h c ! i) d tr])
         | Some (Normal h', tr) \<Rightarrow>
             map_option (\<lambda>(r, rest). (r, Call c (listeners h c ! i) d tr # rest))
               (fire_from code c d (Suc i) h'))
      else Some (Normal h, []))"
  by (subst fire_from.simps)
     (auto simp: invoke_def fire_def Let_def split: option.splits completion.splits lref.splits
           bind_splits)

lemma fire_from_end:
  "length (listeners h c) \<le> i \<Longrightarrow> fire_from code c d i h = Some (Normal h, [])"
  by (subst fire_from_unfold) simp


lemma fire_from_next:
  "i < length (listeners h c) \<Longrightarrow>
   invoke code (listeners h c ! i) d h = Some (Normal h', tr) \<Longrightarrow>
   fire_from code c d i h =
     map_option (\<lambda>(r, rest). (r, Call c (listeners h c ! i) d tr # rest))
       (fire_from code c d (Suc i) h')"
  by (subst fire_from_unfold) simp

lemma fire_from_never:
  "i < length (listeners h c) \<Longrightarrow>
   invoke code (listeners h c ! i) d h = None \<Longrightarrow>
   fire_from code c d i h = None"
  by (subst fire_from_unfold) simp

lemma map_option_prepend:
  "map_option (\<lambda>(r, rest). (r, x # rest)) (map_option (\<lambda>(r, rest). (r, T @ rest)) y)
     = map_option (\<lambda>(r, rest). (r, (x # T) @ rest)) y"
  by (cases y) auto

lemma sequence_staysD:
  "sequence_stays P n c ls \<Longrightarrow> i \<le> n \<Longrightarrow> P i h \<Longrightarrow> listeners h c = ls"
  by (simp add: sequence_stays_def sequence_is_def less_Suc_eq_le)

lemma sequence_keptD:
  "sequence_kept P n c ls \<Longrightarrow> i \<le> n \<Longrightarrow> P i h \<Longrightarrow> prefix ls (listeners h c)"
  by (simp add: sequence_kept_def sequence_begins_def less_Suc_eq_le)

text \<open>
  The loop over a segment, along a firing: while the heaps of \<open>P i\<close> to \<open>P j\<close> pin
  down the first \<open>j\<close> entries of the array, and every entry from \<open>i\<close> up to \<open>j\<close>,
  called in a heap of its set, returns normally in a heap of the next, the loop
  standing at \<open>i\<close> calls these entries in order and goes on as the loop standing at
  \<open>j\<close>.
\<close>

lemma fire_from_chain:
  assumes inv: "\<And>n h. i \<le> n \<Longrightarrow> n \<le> j \<Longrightarrow> P n h \<Longrightarrow>
                  j \<le> length (listeners h c) \<and> take j (listeners h c) = take j ls"
      and step: "\<And>n h. i \<le> n \<Longrightarrow> n < j \<Longrightarrow> P n h \<Longrightarrow>
                   \<exists>h' tr. invoke code (ls ! n) d h = Some (Normal h', tr) \<and> P (Suc n) h'"
      and start: "P i h" and le: "i \<le> j"
  shows "\<exists>h' T. P j h' \<and> top_calls T = map (\<lambda>l. (l, d)) (drop i (take j ls))
           \<and> fire_from code c d i h
               = map_option (\<lambda>(r, rest). (r, T @ rest)) (fire_from code c d j h')"
proof -
  have "\<exists>h' T. P j h' \<and> top_calls T = map (\<lambda>l. (l, d)) (drop m (take j ls))
           \<and> fire_from code c d m h
               = map_option (\<lambda>(r, rest). (r, T @ rest)) (fire_from code c d j h')"
    if "P m h" and "m \<le> j" and "i \<le> m" for m h
    using that
  proof (induction "j - m" arbitrary: m h)
    case 0
    then have "m = j" by simp
    with 0 show ?case
      by (intro exI [of _ h] exI [of _ "[]"]) (simp add: top_calls_def option.map_ident)
  next
    case (Suc n)
    then have lt: "m < j" by simp
    from inv [OF Suc.prems(3) Suc.prems(2) Suc.prems(1)]
    have len: "j \<le> length (listeners h c)"
      and tk: "take j (listeners h c) = take j ls" by simp_all
    from lt len have mlen: "m < length (listeners h c)" by simp
    have jls: "j \<le> length ls"
      using len tk by (metis length_take min.absorb2 min.cobounded1)
    have nth: "listeners h c ! m = ls ! m"
      using lt tk by (metis nth_take)
    from step [OF Suc.prems(3) lt Suc.prems(1)] obtain h1 tr
      where inv1: "invoke code (ls ! m) d h = Some (Normal h1, tr)" and P1: "P (Suc m) h1"
      by blast
    have stepeq: "fire_from code c d m h
        = map_option (\<lambda>(r, rest). (r, Call c (ls ! m) d tr # rest))
            (fire_from code c d (Suc m) h1)"
      using fire_from_next [OF mlen, of code d h1 tr] inv1 nth by simp
    have "n = j - Suc m" using Suc.hyps(2) by simp
    from Suc.hyps(1) [OF this P1] lt Suc.prems(3) obtain h' T
      where P': "P j h'"
        and tc: "top_calls T = map (\<lambda>l. (l, d)) (drop (Suc m) (take j ls))"
        and eq: "fire_from code c d (Suc m) h1
                  = map_option (\<lambda>(r, rest). (r, T @ rest)) (fire_from code c d j h')"
      by auto
    have dr: "drop m (take j ls) = ls ! m # drop (Suc m) (take j ls)"
      using lt jls by (simp add: Cons_nth_drop_Suc [symmetric])
    show ?case
      by (intro exI [of _ h'] exI [of _ "Call c (ls ! m) d tr # T"])
         (simp add: P' stepeq eq map_option_prepend dr top_calls_def tc [unfolded top_calls_def])
  qed
  from this [OF start le order_refl] show ?thesis .
qed


section \<open>Registration\<close>

lemma listeners_addListener:
  "listeners (addListener c l h) c' = (if c' = c then listeners h c @ [l] else listeners h c')"
  by (simp add: addListener_def)

lemma listeners_register_all:
  "listeners (register_all c ls h) c' = (if c' = c then listeners h c @ ls else listeners h c')"
  unfolding register_all_def
  by (induction ls arbitrary: h) (simp_all add: listeners_addListener)

lemma invoke_Closure: "invoke code (Closure k) d h = map_option (\<lambda>r. (r, [])) (code k d h)"
  by (simp add: invoke_def)

lemma invoke_BoundFire: "invoke code (BoundFire t) d h = fire code t d h"
  by (simp add: invoke_def)

section \<open>Firings that return\<close>

text \<open>
  Induction over a firing that returns: the loop either stands at the end of the array,
  or calls a closure or a bound \<open>fire\<close>, which throws or returns; after a return the
  loop goes on from the next index.
\<close>

lemma fire_from_induct [consumes 1, case_names stop closure_raise closure_next bound_raise bound_next]:
  assumes major: "fire_from code c d i h = Some y"
      and stop: "\<And>c i h. length (listeners h c) \<le> i \<Longrightarrow> P c i h (Normal h, [])"
      and closure_raise: "\<And>c i h k e h'.
          i < length (listeners h c) \<Longrightarrow> listeners h c ! i = Closure k \<Longrightarrow>
          code k d h = Some (Abrupt e h') \<Longrightarrow>
          P c i h (Abrupt e h', [Call c (Closure k) d []])"
      and closure_next: "\<And>c i h k h' r rest.
          i < length (listeners h c) \<Longrightarrow> listeners h c ! i = Closure k \<Longrightarrow>
          code k d h = Some (Normal h') \<Longrightarrow> P c (Suc i) h' (r, rest) \<Longrightarrow>
          P c i h (r, Call c (Closure k) d [] # rest)"
      and bound_raise: "\<And>c i h t e h' tr.
          i < length (listeners h c) \<Longrightarrow> listeners h c ! i = BoundFire t \<Longrightarrow>
          P t 0 h (Abrupt e h', tr) \<Longrightarrow>
          P c i h (Abrupt e h', [Call c (BoundFire t) d tr])"
      and bound_next: "\<And>c i h t h' tr r rest.
          i < length (listeners h c) \<Longrightarrow> listeners h c ! i = BoundFire t \<Longrightarrow>
          P t 0 h (Normal h', tr) \<Longrightarrow> P c (Suc i) h' (r, rest) \<Longrightarrow>
          P c i h (r, Call c (BoundFire t) d tr # rest)"
  shows "P c i h y"
proof -
  have "code' = code \<and> d' = d \<longrightarrow> P c i h y"
    if "fire_from code' c d' i h = Some y" for code' d'
    using that
  proof (rule fire_from.raw_induct [rotated 1,
        where P = "\<lambda>code' c d' i h y. code' = code \<and> d' = d \<longrightarrow> P c i h y"], goal_cases)
    case (1 f code' c d' i h y)
    show ?case
    proof (intro impI)
      assume eq: "code' = code \<and> d' = d"
      show "P c i h y"
      proof (cases "i < length (listeners h c)")
        case False
        with 1(2) stop [of h c i] show ?thesis by simp
      next
        case lt: True
        show ?thesis
        proof (cases "listeners h c ! i")
          case (Closure k)
          with 1 lt eq show ?thesis
            by (auto simp: Let_def split: bind_splits completion.splits
                  intro!: closure_raise closure_next)
        next
          case (BoundFire t)
          from 1(2) lt BoundFire eq obtain r1 tr
            where inner: "f code t d 0 h = Some (r1, tr)"
              and rest: "(case r1 of
                            Abrupt e h' \<Rightarrow> Some (Abrupt e h', [Call c (BoundFire t) d tr])
                          | Normal h' \<Rightarrow>
                              Option.bind (f code c d (Suc i) h')
                                (\<lambda>(r', rest). Some (r', Call c (BoundFire t) d tr # rest)))
                         = Some y"
            by (auto simp: Let_def split: bind_splits)
          from 1(1) [OF inner] have Pin: "P t 0 h (r1, tr)" by simp
          show ?thesis
          proof (cases r1)
            case (Abrupt e h')
            with rest Pin bound_raise [OF lt BoundFire] show ?thesis by auto
          next
            case (Normal h')
            with rest obtain r' rest' where nxt: "f code c d (Suc i) h' = Some (r', rest')"
              and y: "y = (r', Call c (BoundFire t) d tr # rest')"
              by (auto split: bind_splits)
            from 1(1) [OF nxt] have "P c (Suc i) h' (r', rest')" by simp
            with Pin Normal y bound_next [OF lt BoundFire] show ?thesis by auto
          qed
        qed
      qed
    qed
  qed
  with major show ?thesis by blast
qed

text \<open>The calls and the closures of a tree, constructor by constructor.\<close>

lemma calls_made_Nil [simp]: "calls_made [] = []"
  by (simp add: calls_made_def)

lemma calls_made_Cons [simp]:
  "calls_made (Call c l d tr # T) = (c, l, d) # calls_made tr @ calls_made T"
  by (simp add: calls_made_def)

lemma closures_called_Nil [simp]: "closures_called [] = {}"
  by (simp add: closures_called_def)

lemma closures_called_Closure [simp]:
  "closures_called (Call c (Closure k) d tr # T) = insert k (closures_called tr \<union> closures_called T)"
  by (simp add: closures_called_def)

lemma closures_called_BoundFire [simp]:
  "closures_called (Call c (BoundFire t) d tr # T) = closures_called tr \<union> closures_called T"
  by (simp add: closures_called_def)

lemma prefix_nth: "prefix xs ys \<Longrightarrow> i < length xs \<Longrightarrow> i < length ys \<and> ys ! i = xs ! i"
  by (auto simp: prefix_def nth_append)

lemma take_Suc_drop:
  "i < length ys \<Longrightarrow> take (Suc n) (drop i ys) = ys ! i # take n (drop (Suc i) ys)"
  by (simp add: Cons_nth_drop_Suc [symmetric])


text \<open>
  The loop reads the live array. If the closures a firing called only appended to
  listener sequences, then so did the firing, and the calls the loop made from index
  \<open>i\<close> on are the entries of the sequence as it is when the loop ends, from \<open>i\<close> on
  and in order: all of them when the loop returned normally.
\<close>

lemma fire_from_live:
  assumes "fire_from code c d i h = Some y" and "P h"
      and "\<forall>k\<in>closures_called (snd y). closure_appends P code d k"
  shows "P (heap_of (fst y))
         \<and> (\<forall>c'. prefix (listeners h c') (listeners (heap_of (fst y)) c'))
         \<and> top_calls (snd y)
             = map (\<lambda>l. (l, d)) (take (length (snd y)) (drop i (listeners (heap_of (fst y)) c)))
         \<and> (\<forall>h'. fst y = Normal h' \<longrightarrow> length (snd y) = length (listeners h' c) - i)"
  using assms
proof (induction rule: fire_from_induct)
  case (stop c i h)
  then show ?case by (simp add: top_calls_def)
next
  case (closure_raise c i h k e h')
  then have "closure_appends P code d k" by simp
  with closure_raise(3,4) have P': "P h'" and pre: "\<forall>c'. prefix (listeners h c') (listeners h' c')"
    by (fastforce simp: closure_appends_def)+
  from pre closure_raise(1,2) have "i < length (listeners h' c)" "listeners h' c ! i = Closure k"
    using prefix_nth by metis+
  with P' pre show ?case by (simp add: top_calls_def take_Suc_drop)
next
  case (closure_next c i h k h' r rest)
  then have "closure_appends P code d k" by simp
  with closure_next(3,5) have P': "P h'" and pre: "\<forall>c'. prefix (listeners h c') (listeners h' c')"
    by (fastforce simp: closure_appends_def)+
  from closure_next(4) [OF P'] closure_next(6)
  have IH: "P (heap_of r)" "\<forall>c'. prefix (listeners h' c') (listeners (heap_of r) c')"
    "top_calls rest = map (\<lambda>l. (l, d)) (take (length rest) (drop (Suc i) (listeners (heap_of r) c)))"
    "\<forall>h'. r = Normal h' \<longrightarrow> length rest = length (listeners h' c) - Suc i"
    by simp_all
  from pre IH(2) have pre2: "\<forall>c'. prefix (listeners h c') (listeners (heap_of r) c')"
    by (meson prefix_order.order_trans)
  with closure_next(1,2) have "i < length (listeners (heap_of r) c)"
    "listeners (heap_of r) c ! i = Closure k"
    using prefix_nth by metis+
  with IH pre2 show ?case
    by (auto simp: top_calls_def take_Suc_drop)
next
  case (bound_raise c i h t e h' tr)
  then have P': "P h'" and pre: "\<forall>c'. prefix (listeners h c') (listeners h' c')"
    by simp_all
  from pre bound_raise(1,2) have "i < length (listeners h' c)" "listeners h' c ! i = BoundFire t"
    using prefix_nth by metis+
  with P' pre show ?case by (simp add: top_calls_def take_Suc_drop)
next
  case (bound_next c i h t h' tr r rest)
  then have P': "P h'" and pre: "\<forall>c'. prefix (listeners h c') (listeners h' c')"
    by simp_all
  from bound_next(4) [OF P'] bound_next(6)
  have IH: "P (heap_of r)" "\<forall>c'. prefix (listeners h' c') (listeners (heap_of r) c')"
    "top_calls rest = map (\<lambda>l. (l, d)) (take (length rest) (drop (Suc i) (listeners (heap_of r) c)))"
    "\<forall>h'. r = Normal h' \<longrightarrow> length rest = length (listeners h' c) - Suc i"
    by simp_all
  from pre IH(2) have pre2: "\<forall>c'. prefix (listeners h c') (listeners (heap_of r) c')"
    by (meson prefix_order.order_trans)
  with bound_next(1,2) have "i < length (listeners (heap_of r) c)"
    "listeners (heap_of r) c ! i = BoundFire t"
    using prefix_nth by metis+
  with IH pre2 show ?case
    by (auto simp: top_calls_def take_Suc_drop)
qed

text \<open>
  A loop that returns, standing at an entry of the array, has called that entry first.
\<close>

lemma fire_from_first_call:
  assumes "fire_from code c d i h = Some (r, T)" and "i < length (listeners h c)"
  shows "\<exists>r1 tr rest. invoke code (listeners h c ! i) d h = Some (r1, tr)
           \<and> T = Call c (listeners h c ! i) d tr # rest"
  using assms
  by (subst (asm) fire_from_unfold) (auto split: option.splits completion.splits)

text \<open>
  Along a firing in which every listener returns normally and nothing is registered on
  the channel, every entry is called, in order; the first listener to throw ends the
  loop; and a firing that returns has called every listener it reached.
\<close>

lemma fire_runs:
  assumes start: "P 0 h"
      and seq: "sequence_stays P (length ls) c ls"
      and ret: "calls_return P code d ls"
  shows "\<exists>h' T. fire code c d h = Some (Normal h', T)
           \<and> top_calls T = map (\<lambda>l. (l, d)) ls \<and> P (length ls) h'"
proof -
  have "\<exists>h' T. P (length ls) h' \<and> top_calls T = map (\<lambda>l. (l, d)) (drop 0 (take (length ls) ls))
           \<and> fire_from code c d 0 h
               = map_option (\<lambda>(r, rest). (r, T @ rest)) (fire_from code c d (length ls) h')"
  proof (rule fire_from_chain [where P = P])
    show "\<And>n h. 0 \<le> n \<Longrightarrow> n \<le> length ls \<Longrightarrow> P n h \<Longrightarrow>
            length ls \<le> length (listeners h c)
            \<and> take (length ls) (listeners h c) = take (length ls) ls"
      using sequence_staysD [OF seq] by simp
    show "\<And>n h. 0 \<le> n \<Longrightarrow> n < length ls \<Longrightarrow> P n h \<Longrightarrow>
            \<exists>h' tr. invoke code (ls ! n) d h = Some (Normal h', tr) \<and> P (Suc n) h'"
      using ret unfolding calls_return_def steps_to_def by simp
  qed (simp_all add: start)
  then obtain h' T where P': "P (length ls) h'"
    and tc: "top_calls T = map (\<lambda>l. (l, d)) ls"
    and eq: "fire_from code c d 0 h
               = map_option (\<lambda>(r, rest). (r, T @ rest)) (fire_from code c d (length ls) h')"
    by auto
  have "fire_from code c d (length ls) h' = Some (Normal h', [])"
    using sequence_staysD [OF seq order_refl P'] by (intro fire_from_end) simp
  with eq have "fire code c d h = Some (Normal h', T)" by (simp add: fire_def)
  with tc P' show ?thesis by blast
qed


lemma fire_reaches:
  assumes ret: "fire code c d h = Some (r, T)"
      and start: "P 0 h"
      and seq: "sequence_kept P (length pre) c (pre @ [l])"
      and before: "calls_return P code d pre"
  shows "\<exists>h1 T1 r1 tr rest. P (length pre) h1 \<and> top_calls T1 = map (\<lambda>x. (x, d)) pre
           \<and> invoke code l d h1 = Some (r1, tr) \<and> T = T1 @ Call c l d tr # rest"
proof -
  let ?ls = "pre @ [l]" and ?k = "length pre"
  have "\<exists>h' T. P ?k h' \<and> top_calls T = map (\<lambda>l. (l, d)) (drop 0 (take ?k ?ls))
           \<and> fire_from code c d 0 h
               = map_option (\<lambda>(r, rest). (r, T @ rest)) (fire_from code c d ?k h')"
  proof (rule fire_from_chain [where P = P])
    show "\<And>n h. 0 \<le> n \<Longrightarrow> n \<le> ?k \<Longrightarrow> P n h \<Longrightarrow>
            ?k \<le> length (listeners h c) \<and> take ?k (listeners h c) = take ?k ?ls"
      using sequence_keptD [OF seq] by (fastforce simp: prefix_def)
    show "\<And>n h. 0 \<le> n \<Longrightarrow> n < ?k \<Longrightarrow> P n h \<Longrightarrow>
            \<exists>h' tr. invoke code (?ls ! n) d h = Some (Normal h', tr) \<and> P (Suc n) h'"
      using before unfolding calls_return_def steps_to_def by (simp add: nth_append)
  qed (simp_all add: start)
  then obtain h1 T1 where P1: "P ?k h1" and tc: "top_calls T1 = map (\<lambda>x. (x, d)) pre"
    and eq: "fire_from code c d 0 h
               = map_option (\<lambda>(r, rest). (r, T1 @ rest)) (fire_from code c d ?k h1)"
    by auto
  from ret eq obtain T' where ret1: "fire_from code c d ?k h1 = Some (r, T')" and T: "T = T1 @ T'"
    by (auto simp: fire_def)
  from sequence_keptD [OF seq order_refl P1] have "prefix ?ls (listeners h1 c)" .
  then have "?k < length (listeners h1 c)" "listeners h1 c ! ?k = l"
    using prefix_nth [of ?ls "listeners h1 c" ?k] by simp_all
  with fire_from_first_call [OF ret1] obtain r1 tr rest
    where "invoke code l d h1 = Some (r1, tr)" "T' = Call c l d tr # rest" by auto
  with P1 tc T show ?thesis by blast
qed


lemma count_list_map_pair: "count_list (map (\<lambda>l. (l, d)) xs) (a, d) = count_list xs a"
  by (induction xs) auto

subsection \<open>Running the examples\<close>

lemmas example_simps =
  fire_def fire_from_unfold invoke_Closure invoke_BoundFire channel_with_def two_channels_def
  register_all_def addListener_def makeTypedEventController_def empty_heap_def say_def

section \<open>The claims\<close>

subsection \<open>C1: order of notification and identity of the payload\<close>

text \<open>
  C1, as the specification states it, says that on a channel made by
  \<open>makeTypedEventController\<close> on which \<open>L1..Ln\<close> were registered in that order, one
  call \<open>fire(d)\<close> calls exactly \<open>L1(d), ..., Ln(d)\<close>, in that order, whatever the
  listeners are. The loop has no \<open>try\<close> and reads the live array, so this holds of the
  firings in which no listener throws or registers on the channel. It is proved of every
  firing in which each listener, when its turn comes, returns normally (\<open>Li\<close>, called
  in a heap of \<open>P (i - 1)\<close>, returns in a heap of \<open>P i\<close>; whether it does may
  depend on the listeners that ran before it) and in which the sequence of the channel
  stays the one it has when \<open>fire\<close> is called. Then \<open>fire(d)\<close> returns normally,
  and the calls it made are \<open>L1(d), ..., Ln(d)\<close>, in registration order, each with the
  payload \<open>d\<close> given to \<open>fire\<close>.
\<close>

theorem C1_fire_calls_in_registration_order:
  assumes fresh: "makeTypedEventController h0 = (c, h1)"
      and start: "P 0 (register_all c ls h1)"
      and seq: "sequence_stays P (length ls) c (listeners (register_all c ls h1) c)"
      and ret: "calls_return P code d ls"
  shows "\<exists>h' T. fire code c d (register_all c ls h1) = Some (Normal h', T)
           \<and> top_calls T = map (\<lambda>l. (l, d)) ls"
proof -
  from fresh have "listeners h1 c = []"
    by (auto simp: makeTypedEventController_def)
  then have ls: "listeners (register_all c ls h1) c = ls"
    by (simp add: listeners_register_all)
  from fire_runs [OF start seq [unfolded ls] ret] show ?thesis by blast
qed

text \<open>
  The theorem at a concrete input: closures 0, 4 and 2, registered on a fresh channel
  and fired with 42. Closure 4 returns normally only because closure 0 ran before it;
  \<open>P i\<close> says that the channel has these three listeners and that the log is not
  empty once \<open>i > 0\<close>.
\<close>

theorem C1_witness:
  "\<exists>h' T. fire example_code 0 42 (channel_with [Closure 0, Closure 4, Closure 2])
             = Some (Normal h', T)
      \<and> top_calls T = [(Closure 0, 42), (Closure 4, 42), (Closure 2, 42)]"
  using C1_fire_calls_in_registration_order
    [of empty_heap 0 "snd (makeTypedEventController empty_heap)"
        "\<lambda>i h. listeners h 0 = [Closure 0, Closure 4, Closure 2] \<and> (0 < i \<longrightarrow> user h \<noteq> [])"
        "[Closure 0, Closure 4, Closure 2]" example_code 42]
  by (simp add: channel_with_def makeTypedEventController_def empty_heap_def
        listeners_register_all sequence_stays_def sequence_is_def calls_return_def steps_to_def
        invoke_Closure say_def less_Suc_eq nth_Cons')

text \<open>
  The claim as stated fails when a listener throws: with closures 0, 1 and 2 registered
  in that order, closure 1 throwing, \<open>fire(42)\<close> calls closure 0 and closure 1 and
  leaves with the thrown value; closure 2 is never called. It also fails when a listener
  registers on the channel: with closure 3 alone registered, \<open>fire(42)\<close> calls closure
  3 and then closure 2, which closure 3 registered during the firing.
\<close>

theorem C1_counterexample:
  "fire example_code 0 42 (channel_with [Closure 0, Closure 1, Closure 2])
     = Some (Abrupt ''boom'' (say ''a'' (channel_with [Closure 0, Closure 1, Closure 2])),
             [Call 0 (Closure 0) 42 [], Call 0 (Closure 1) 42 []])
   \<and> fire example_code 0 42 (channel_with [Closure 3])
     = Some (Normal (channel_with [Closure 3, Closure 2]\<lparr>user := [''c'']\<rparr>),
             [Call 0 (Closure 3) 42 [], Call 0 (Closure 2) 42 []])"
  by (simp add: example_simps)

subsection \<open>C2: the first listener to throw ends the firing\<close>



subsection \<open>C3: a passthrough forwards the occurrence\<close>

text \<open>
  C3, as the specification states it: when \<open>addPassthroughListener(B)\<close> was called on
  \<open>A\<close> and \<open>LB\<close> is registered on \<open>B\<close>, firing \<open>A\<close> with \<open>d\<close> results in
  \<open>LB(d)\<close>, after the listeners registered on \<open>A\<close> before the passthrough. A throw
  ends the loop, so this is proved of the firings in which the listeners that come first
  return normally.

  The setting: \<open>addPassthroughListener(B)\<close> was called on \<open>A\<close> in the heap \<open>hA\<close>,
  so the listeners registered on \<open>A\<close> before the passthrough are those of \<open>hA\<close>;
  \<open>addListener(LB)\<close> was called on \<open>B\<close> in the heap \<open>hB\<close>. In the firing of
  \<open>A\<close> (\<open>PA i\<close>: the loop of \<open>A\<close> stands at \<open>i\<close>) and in the firing of \<open>B\<close>
  that the passthrough starts (\<open>PB j\<close>: the loop of \<open>B\<close> stands at \<open>j\<close>), the
  entries these calls left are in place, later registrations having appended to them,
  and the listeners registered before the passthrough, and before \<open>LB\<close>, return
  normally when their turn comes.

  First half: every such firing of \<open>A\<close> with \<open>d\<close> that returns has called the
  listeners registered on \<open>A\<close> before the passthrough with \<open>d\<close>, in order, then the
  passthrough with \<open>d\<close>, and inside that call the listeners registered on \<open>B\<close>
  before \<open>LB\<close> and then \<open>LB\<close>, each with \<open>d\<close>. Second half: the firing does
  return, normally, when all listeners of \<open>A\<close> (\<open>lsA\<close>) and of \<open>B\<close> (\<open>lsB\<close>)
  return normally when their turn comes and nothing is registered on \<open>A\<close> or \<open>B\<close>
  on the way.
\<close>

theorem C3_passthrough_forwards:
  assumes start: "PA 0 h"
      and passA: "sequence_kept PA (length (listeners hA A)) A
                    (listeners (addPassthroughListener A B hA) A)"
      and preA: "calls_return PA code d (listeners hA A)"
      and enter: "\<forall>h. PA (length (listeners hA A)) h \<longrightarrow> PB 0 h"
      and regB: "sequence_kept PB (length (listeners hB B)) B (listeners (addListener B LB hB) B)"
      and preB: "calls_return PB code d (listeners hB B)"
  shows "(fire code A d h = Some (r, T)
          \<longrightarrow> (\<exists>T1 trB T2 T3 trL T4.
                 T = T1 @ Call A (BoundFire B) d trB # T2
                 \<and> top_calls T1 = map (\<lambda>x. (x, d)) (listeners hA A)
                 \<and> trB = T3 @ Call B LB d trL # T4
                 \<and> top_calls T3 = map (\<lambda>x. (x, d)) (listeners hB B)))
       \<and> (sequence_stays PA (length lsA) A lsA \<and> sequence_stays PB (length lsB) B lsB
            \<and> (\<forall>i<length lsA. i \<noteq> length (listeners hA A) \<longrightarrow>
                   steps_to (PA i) (PA (Suc i)) code d (lsA ! i))
            \<and> calls_return PB code d lsB
            \<and> (\<forall>h. PB (length lsB) h \<longrightarrow> PA (Suc (length (listeners hA A))) h)
          \<longrightarrow> (\<exists>h' T. fire code A d h = Some (Normal h', T)
                 \<and> top_calls T = map (\<lambda>x. (x, d)) lsA))"
proof (intro conjI impI)
  let ?pre = "listeners hA A" and ?preB = "listeners hB B"
  have seqA: "sequence_kept PA (length ?pre) A (?pre @ [BoundFire B])"
    using passA by (simp add: addPassthroughListener_def listeners_addListener)
  have seqB: "sequence_kept PB (length ?preB) B (?preB @ [LB])"
    using regB by (simp add: listeners_addListener)
  {
    assume ret: "fire code A d h = Some (r, T)"
    from fire_reaches [OF ret start seqA preA]
    obtain h1 T1 r1 trB T2 where P1: "PA (length ?pre) h1"
      and tc1: "top_calls T1 = map (\<lambda>x. (x, d)) ?pre"
      and inner: "invoke code (BoundFire B) d h1 = Some (r1, trB)"
      and T: "T = T1 @ Call A (BoundFire B) d trB # T2"
      by blast
    from inner have retB: "fire code B d h1 = Some (r1, trB)" by (simp add: invoke_BoundFire)
    from enter P1 have "PB 0 h1" by simp
    from fire_reaches [OF retB this seqB preB]
    obtain T3 trL T4 where "top_calls T3 = map (\<lambda>x. (x, d)) ?preB"
      "trB = T3 @ Call B LB d trL # T4"
      by blast
    with T tc1 show "\<exists>T1 trB T2 T3 trL T4.
                   T = T1 @ Call A (BoundFire B) d trB # T2
                   \<and> top_calls T1 = map (\<lambda>x. (x, d)) ?pre
                   \<and> trB = T3 @ Call B LB d trL # T4
                   \<and> top_calls T3 = map (\<lambda>x. (x, d)) ?preB"
      by blast
  }
  {
    assume a: "sequence_stays PA (length lsA) A lsA \<and> sequence_stays PB (length lsB) B lsB
            \<and> (\<forall>i<length lsA. i \<noteq> length ?pre \<longrightarrow>
                   steps_to (PA i) (PA (Suc i)) code d (lsA ! i))
            \<and> calls_return PB code d lsB
            \<and> (\<forall>h. PB (length lsB) h \<longrightarrow> PA (Suc (length ?pre)) h)"
    then have stA: "sequence_stays PA (length lsA) A lsA"
      and stB: "sequence_stays PB (length lsB) B lsB"
      and retB: "calls_return PB code d lsB" by simp_all
    from sequence_staysD [OF stA _ start] have "listeners h A = lsA" by simp
    moreover from sequence_keptD [OF seqA _ start]
    have "prefix (?pre @ [BoundFire B]) (listeners h A)" by simp
    ultimately have k: "length ?pre < length lsA" and nth: "lsA ! length ?pre = BoundFire B"
      using prefix_nth [of "?pre @ [BoundFire B]" lsA "length ?pre"] by simp_all
    have pass: "steps_to (PA (length ?pre)) (PA (Suc (length ?pre))) code d (BoundFire B)"
      unfolding steps_to_def
    proof (intro allI impI)
      fix h0 assume "PA (length ?pre) h0"
      with enter have "PB 0 h0" by simp
      from fire_runs [OF this stB retB] a
      show "\<exists>h' tr. invoke code (BoundFire B) d h0 = Some (Normal h', tr)
              \<and> PA (Suc (length ?pre)) h'"
        by (auto simp: invoke_BoundFire)
    qed
    have "calls_return PA code d lsA"
      unfolding calls_return_def
    proof (intro allI impI)
      fix i assume "i < length lsA"
      with a pass nth show "steps_to (PA i) (PA (Suc i)) code d (lsA ! i)"
        by (cases "i = length ?pre") simp_all
    qed
    from fire_runs [OF start stA this]
    show "\<exists>h' T. fire code A d h = Some (Normal h', T) \<and> top_calls T = map (\<lambda>x. (x, d)) lsA"
      by blast
  }
qed

text \<open>
  Channel 0 has closure 0, then \<open>addPassthroughListener\<close> registers the passthrough to
  channel 1; channel 1 has closure 4, then \<open>addListener\<close> registers closure 2 (\<open>LB\<close>).
  Closure 4 returns normally only because closure 0 ran before it.
\<close>

theorem C3_witness:
  "fire example_code 0 42
     (addListener 1 (Closure 2) (addPassthroughListener 0 1 (two_channels [Closure 0] [Closure 4])))
     = Some (Normal (addListener 1 (Closure 2)
                       (addPassthroughListener 0 1 (two_channels [Closure 0] [Closure 4]))
                     \<lparr>user := [''a'', ''d'', ''c'']\<rparr>),
             [Call 0 (Closure 0) 42 [],
              Call 0 (BoundFire 1) 42 [Call 1 (Closure 4) 42 [], Call 1 (Closure 2) 42 []]])
   \<and> (\<exists>T1 trB T2 T3 trL T4.
      [Call 0 (Closure 0) (42::int) [],
       Call 0 (BoundFire 1) 42 [Call 1 (Closure 4) 42 [], Call 1 (Closure 2) 42 []]]
        = T1 @ Call 0 (BoundFire 1) 42 trB # T2
      \<and> top_calls T1 = [(Closure 0, 42)]
      \<and> trB = T3 @ Call 1 (Closure 2) 42 trL # T4
      \<and> top_calls T3 = [(Closure 4, 42)])
   \<and> (\<exists>h' T. fire example_code 0 42
                (addListener 1 (Closure 2)
                   (addPassthroughListener 0 1 (two_channels [Closure 0] [Closure 4])))
               = Some (Normal h', T)
          \<and> top_calls T = [(Closure 0, 42), (BoundFire 1, 42)])"
  using C3_passthrough_forwards
      [of "\<lambda>i h. listeners h 0 = [Closure 0, BoundFire 1] \<and> listeners h 1 = [Closure 4, Closure 2]
                  \<and> (0 < i \<longrightarrow> user h \<noteq> [])"
          "addListener 1 (Closure 2) (addPassthroughListener 0 1 (two_channels [Closure 0] [Closure 4]))"
          "two_channels [Closure 0] [Closure 4]" 0 1
          example_code 42
          "\<lambda>j h. listeners h 0 = [Closure 0, BoundFire 1] \<and> listeners h 1 = [Closure 4, Closure 2]
                  \<and> user h \<noteq> []"
          "addPassthroughListener 0 1 (two_channels [Closure 0] [Closure 4])" "Closure 2"
          "Normal (addListener 1 (Closure 2)
                       (addPassthroughListener 0 1 (two_channels [Closure 0] [Closure 4]))
                     \<lparr>user := [''a'', ''d'', ''c'']\<rparr>)"
          "[Call 0 (Closure 0) 42 [],
            Call 0 (BoundFire 1) 42 [Call 1 (Closure 4) 42 [], Call 1 (Closure 2) 42 []]]"
          "[Closure 0, BoundFire 1]" "[Closure 4, Closure 2]"]
  by (simp add: example_simps addPassthroughListener_def sequence_kept_def sequence_begins_def
        sequence_stays_def sequence_is_def calls_return_def steps_to_def less_Suc_eq nth_Cons')

text \<open>
  The claim as stated fails when a listener registered on \<open>A\<close> before the passthrough
  throws: channel 0 has closure 1, which throws, then the passthrough to channel 1 is
  registered, and closure 0 is registered on channel 1; firing channel 0 calls closure 1
  and nothing else.
\<close>

theorem C3_counterexample:
  "fire example_code 0 42
     (addListener 1 (Closure 0) (addPassthroughListener 0 1 (two_channels [Closure 1] [])))
     = Some (Abrupt ''boom''
               (addListener 1 (Closure 0) (addPassthroughListener 0 1 (two_channels [Closure 1] []))),
             [Call 0 (Closure 1) 42 []])"
  by (simp add: example_simps addPassthroughListener_def)

subsection \<open>C4: a passthrough is an ordinary listener\<close>

text \<open>
  C4: \<open>addPassthroughListener(C2)\<close> leaves the heap that \<open>addListener\<close> leaves when
  given the listener whose call with \<open>d\<close> is \<open>C2.fire(d)\<close>, so every later firing
  behaves the same; the listener sequence of the channel gains that one entry, and
  nothing else in the heap changes.
\<close>

theorem C4_passthrough_is_addListener:
  "addPassthroughListener c t h = addListener c (BoundFire t) h
   \<and> invoke code (BoundFire t) d h' = fire code t d h'
   \<and> fire code c' d (addPassthroughListener c t h) = fire code c' d (addListener c (BoundFire t) h)
   \<and> listeners (addPassthroughListener c t h) = (listeners h)(c := listeners h c @ [BoundFire t])
   \<and> allocated (addPassthroughListener c t h) = allocated h
   \<and> user (addPassthroughListener c t h) = user h"
  by (simp add: addPassthroughListener_def addListener_def invoke_def)

theorem C4_witness:
  "addPassthroughListener 0 1 (two_channels [Closure 0] [Closure 2])
     = addListener 0 (BoundFire 1) (two_channels [Closure 0] [Closure 2])
   \<and> invoke example_code (BoundFire 1) 42 (two_channels [Closure 0, BoundFire 1] [Closure 2])
     = fire example_code 1 42 (two_channels [Closure 0, BoundFire 1] [Closure 2])
   \<and> listeners (addPassthroughListener 0 1 (two_channels [Closure 0] [Closure 2])) 0
     = [Closure 0, BoundFire 1]"
  using C4_passthrough_is_addListener
      [of 0 1 "two_channels [Closure 0] [Closure 2]" example_code 42
          "two_channels [Closure 0, BoundFire 1] [Closure 2]" 0]
  by (simp add: example_simps addPassthroughListener_def)

subsection \<open>C5: a listener registered twice is called twice\<close>

text \<open>
  C5, as the specification states it: registering \<open>a\<close> twice makes two entries, and a
  firing calls \<open>a(d)\<close> exactly twice. The first half holds as stated: the two calls of
  \<open>addListener\<close> append \<open>a, a\<close> to the sequence. The second half is proved of the
  firings in which every listener returns normally when its turn comes and nothing is
  registered on the channel: then \<open>fire(d)\<close> returns normally, the last two calls it
  made are \<open>a(d)\<close> and \<open>a(d)\<close>, and among the calls the firing made itself there is
  one \<open>a(d)\<close> for every entry of \<open>a\<close> in the sequence: exactly two when \<open>a\<close> was
  not registered on the channel before. Calls of \<open>a\<close> made inside the call of another
  listener (a passthrough to a channel on which \<open>a\<close> is registered) are not calls of
  this firing and are not counted.
\<close>

theorem C5_registered_twice_called_twice:
  assumes start: "P 0 (addListener c a (addListener c a h))"
      and seq: "sequence_stays P (length (listeners h c @ [a, a])) c
                  (listeners (addListener c a (addListener c a h)) c)"
      and ret: "calls_return P code d (listeners h c @ [a, a])"
  shows "listeners (addListener c a (addListener c a h)) c = listeners h c @ [a, a]
         \<and> (\<exists>h' T. fire code c d (addListener c a (addListener c a h)) = Some (Normal h', T)
               \<and> top_calls T = map (\<lambda>l. (l, d)) (listeners h c) @ [(a, d), (a, d)]
               \<and> count_list (top_calls T) (a, d) = count_list (listeners h c) a + 2
               \<and> (a \<notin> set (listeners h c) \<longrightarrow> count_list (top_calls T) (a, d) = 2))"
proof -
  let ?h2 = "addListener c a (addListener c a h)"
  have ls: "listeners ?h2 c = listeners h c @ [a, a]"
    by (simp add: listeners_addListener)
  from fire_runs [OF start seq [unfolded ls] ret]
  obtain h' T where ret: "fire code c d ?h2 = Some (Normal h', T)"
    and tc: "top_calls T = map (\<lambda>l. (l, d)) (listeners h c @ [a, a])"
    by auto
  have "count_list (top_calls T) (a, d) = count_list (listeners h c) a + 2"
    unfolding tc count_list_map_pair by simp
  with ls ret tc show ?thesis by (auto simp: count_list_0_iff)
qed

text \<open>
  Closure 4, registered twice on a channel that has closure 2: closure 4 returns
  normally because closure 2 ran before it.
\<close>

theorem C5_witness:
  "listeners (addListener 0 (Closure 4) (addListener 0 (Closure 4) (channel_with [Closure 2]))) 0
     = [Closure 2, Closure 4, Closure 4]
   \<and> (\<exists>h' T. fire example_code 0 42
                (addListener 0 (Closure 4) (addListener 0 (Closure 4) (channel_with [Closure 2])))
              = Some (Normal h', T)
          \<and> top_calls T = [(Closure 2, 42), (Closure 4, 42), (Closure 4, 42)]
          \<and> count_list (top_calls T) (Closure 4, 42) = 2)"
  using C5_registered_twice_called_twice
      [of "\<lambda>i h. listeners h 0 = [Closure 2, Closure 4, Closure 4]
                  \<and> (0 < i \<longrightarrow> user h \<noteq> [])" 0 "Closure 4"
          "channel_with [Closure 2]" example_code 42]
  by (simp add: channel_with_def makeTypedEventController_def empty_heap_def
        listeners_register_all listeners_addListener sequence_stays_def sequence_is_def
        calls_return_def steps_to_def invoke_Closure say_def less_Suc_eq nth_Cons')
     blast

text \<open>
  The second half as stated fails: a listener that throws is called once, not twice
  (closure 1, registered twice on a fresh channel); a listener that was registered
  before is called more than twice (closure 0, registered twice on a channel that has
  it already, is called three times); and so is a listener that another listener of the
  channel calls (closure 0, registered twice on channel 0 after a passthrough to channel
  1, on which closure 0 is registered too, runs three times in one firing of channel 0).
\<close>

theorem C5_counterexample:
  "fire example_code 0 42 (addListener 0 (Closure 1) (addListener 0 (Closure 1) (channel_with [])))
     = Some (Abrupt ''boom'' (channel_with [Closure 1, Closure 1]), [Call 0 (Closure 1) 42 []])
   \<and> fire example_code 0 42
       (addListener 0 (Closure 0) (addListener 0 (Closure 0) (channel_with [Closure 0])))
     = Some (Normal (channel_with [Closure 0, Closure 0, Closure 0]\<lparr>user := [''a'', ''a'', ''a'']\<rparr>),
             [Call 0 (Closure 0) 42 [], Call 0 (Closure 0) 42 [], Call 0 (Closure 0) 42 []])
   \<and> fire example_code 0 42
       (addListener 0 (Closure 0) (addListener 0 (Closure 0)
          (addPassthroughListener 0 1 (two_channels [] [Closure 0]))))
     = Some (Normal (addListener 0 (Closure 0) (addListener 0 (Closure 0)
                       (addPassthroughListener 0 1 (two_channels [] [Closure 0])))
                     \<lparr>user := [''a'', ''a'', ''a'']\<rparr>),
             [Call 0 (BoundFire 1) 42 [Call 1 (Closure 0) 42 []],
              Call 0 (Closure 0) 42 [], Call 0 (Closure 0) 42 []])"
  by (simp add: example_simps addPassthroughListener_def)

subsection \<open>C6: a fresh channel is empty, and firing an empty channel does nothing\<close>

text \<open>
  C6: the channel that \<open>makeTypedEventController\<close> returns has an empty listener
  sequence; and on every channel with no listener registered, \<open>fire(d)\<close> returns
  normally for every payload \<open>d\<close>, throws nothing, calls no listener and leaves the
  heap as it was.
\<close>

theorem C6_empty_fire_is_noop:
  "listeners (snd (makeTypedEventController h0)) (fst (makeTypedEventController h0)) = []
   \<and> (listeners h c = [] \<longrightarrow> fire code c d h = Some (Normal h, []))"
  by (simp add: makeTypedEventController_def fire_def fire_from_end)

theorem C6_witness:
  "listeners (snd (makeTypedEventController empty_heap)) 0 = []
   \<and> fire example_code 0 42 (snd (makeTypedEventController empty_heap))
       = Some (Normal (snd (makeTypedEventController empty_heap)), [])"
  using C6_empty_fire_is_noop
    [of empty_heap "snd (makeTypedEventController empty_heap)" 0 example_code 42]
  by (simp add: makeTypedEventController_def empty_heap_def)

subsection \<open>C7: the listener sequence only grows\<close>

text \<open>
  C7: \<open>addListener\<close> and \<open>addPassthroughListener\<close> each append exactly one entry to
  the end of the sequence of their channel and leave every other channel alone; making
  another channel leaves the existing sequences alone; and a firing that returns has
  only appended to the sequences, removing and reordering nothing, as long as the
  client functions it called did nothing else (they can do nothing else:
  \<open>_listeners\<close> is private, and \<open>addListener\<close> and \<open>addPassthroughListener\<close> are
  the only methods that write it).
\<close>

theorem C7_sequence_only_grows:
  "listeners (addListener c l h) c = listeners h c @ [l]
   \<and> listeners (addPassthroughListener c t h) c = listeners h c @ [BoundFire t]
   \<and> (c' \<noteq> c \<longrightarrow> listeners (addListener c l h) c' = listeners h c'
                 \<and> listeners (addPassthroughListener c t h) c' = listeners h c')
   \<and> (c' \<noteq> fst (makeTypedEventController h) \<longrightarrow>
         listeners (snd (makeTypedEventController h)) c' = listeners h c')
   \<and> (fire code c d h = Some (r, T) \<and> P h \<and> (\<forall>k\<in>closures_called T. closure_appends P code d k)
        \<longrightarrow> (\<forall>c'. prefix (listeners h c') (listeners (heap_of r) c')))"
proof -
  have "\<forall>c'. prefix (listeners h c') (listeners (heap_of r) c')"
    if "fire code c d h = Some (r, T)" "P h" "\<forall>k\<in>closures_called T. closure_appends P code d k"
    using fire_from_live [of code c d 0 h "(r, T)" P] that by (simp add: fire_def)
  then show ?thesis
    by (simp add: listeners_addListener addPassthroughListener_def makeTypedEventController_def)
qed

theorem C7_witness:
  "listeners (addListener 0 (Closure 2) (channel_with [Closure 0])) 0 = [Closure 0, Closure 2]
   \<and> listeners (addPassthroughListener 0 1 (channel_with [Closure 0])) 0 = [Closure 0, BoundFire 1]
   \<and> listeners (addListener 0 (Closure 2) (channel_with [Closure 0])) 1 = []
   \<and> listeners (snd (makeTypedEventController (channel_with [Closure 0]))) 0 = [Closure 0]
   \<and> (\<forall>c'. prefix (listeners (channel_with [Closure 3]) c')
              (listeners (channel_with [Closure 3, Closure 2]\<lparr>user := [''c'']\<rparr>) c'))"
  using C7_sequence_only_grows
      [of 0 "Closure 2" "channel_with [Closure 0]" 1 1 example_code 42 "Normal empty_heap" "[]"
          "\<lambda>h. False"]
    C7_sequence_only_grows
      [of 0 "Closure 2" "channel_with [Closure 0]" 1 0 example_code 42 "Normal empty_heap" "[]"
          "\<lambda>h. False"]
    C7_sequence_only_grows
      [of 0 "Closure 2" "channel_with [Closure 3]" 1 0 example_code 42
          "Normal (channel_with [Closure 3, Closure 2]\<lparr>user := [''c'']\<rparr>)"
          "[Call 0 (Closure 3) 42 [], Call 0 (Closure 2) 42 []]" "\<lambda>h. True"]
  by (simp add: example_simps closure_appends_def addPassthroughListener_def)

subsection \<open>C8: the subscribable view cannot fire\<close>

text \<open>
  C8: the interface \<open>TypedEvent\<close> has exactly the two methods \<open>addListener\<close> and
  \<open>addPassthroughListener\<close>; \<open>fire\<close> is not among them (it is a method of
  \<open>TypedEventController\<close> only). Whatever call is made through a \<open>TypedEvent\<close>
  reference, it returns normally, no listener is called by it, and the program state
  outside the registry is as before: no occurrence of the event is declared.
\<close>

theorem C8_subscribable_view_cannot_fire:
  "(\<exists>h'. call_TypedEvent code c m h = Some (Normal h', []) \<and> user h' = user h
          \<and> allocated h' = allocated h)
   \<and> ((\<exists>l. m = AddListener l) \<or> (\<exists>t. m = AddPassthroughListener t))
   \<and> Inherited m \<noteq> Fire d
   \<and> call_TypedEventController code c (Fire d) h = fire code c d h"
  by (cases m) (simp_all add: call_TypedEvent_def addListener_def addPassthroughListener_def)

theorem C8_witness:
  "(\<exists>h'. call_TypedEvent example_code 0 (AddPassthroughListener 1) (channel_with [Closure 0])
            = Some (Normal h', [])
          \<and> user h' = user (channel_with [Closure 0])
          \<and> allocated h' = allocated (channel_with [Closure 0]))
   \<and> Inherited (AddPassthroughListener 1) \<noteq> Fire (42::int)"
  using C8_subscribable_view_cannot_fire
      [of example_code 0 "AddPassthroughListener 1" "channel_with [Closure 0]" 42]
  by simp

subsection \<open>C9: registration during a firing is live\<close>




subsection \<open>C10: \<open>fire\<close> itself never changes the registry\<close>



end
